theory Spec2Isabelle
  imports Complex_Main "HOL-Library.Multiset" "HOL-Library.Sublist" "HOL-Library.List_Lexorder"
begin

section \<open>Data model of index.py\<close>

text \<open>
  A Python \<open>str\<close> is a sequence of code points, so it is a list of naturals here; the
  order of \<open>HOL-Library.List_Lexorder\<close> on such lists is the order Python's \<open>sorted\<close>
  compares strings with. The classifier's score and the constant \<open>0.1\<close> are only stored
  and compared, never computed with, so a float is a rational.
\<close>

type_synonym pystr = "nat list"

datatype py_error = KeyError | UnboundLocalError | JSONDecodeError

text \<open>
  An article is a \<open>Dict[str, Any]\<close>. The program reads or writes six keys of it; each
  key is a field holding \<open>None\<close> while the key is absent from the dict. \<open>title\<close>,
  \<open>link\<close> and \<open>published\<close> are set by \<open>fetch_news\<close>, \<open>sentiment\<close> and
  \<open>subjectivity\<close> by \<open>analyze_sentiment\<close>; \<open>description\<close> is only ever read.
\<close>

record article =
  title :: "pystr option"
  link :: "pystr option"
  published :: "pystr option"
  description :: "pystr option"
  sentiment :: "pystr option"
  subjectivity :: "rat option"

text \<open>
  The lists of the program hold references to dict objects, and \<open>analyze_sentiment\<close> and
  \<open>adjust_subjectivity\<close> mutate those objects in place. A reference is an address, the
  heap gives the dict stored at each address, and a list of articles is a list of
  addresses.
\<close>

type_synonym ref = nat
type_synonym heap = "ref \<Rightarrow> article"

record store =
  heap :: heap
  next_ref :: ref

text \<open>\<open>d[k]\<close> on a dict: a missing key raises \<open>KeyError\<close>.\<close>

definition getitem :: "'a option \<Rightarrow> py_error + 'a" where
  "getitem v = (case v of None \<Rightarrow> Inl KeyError | Some x \<Rightarrow> Inr x)"

text \<open>\<open>d.get(k, default)\<close> on a dict.\<close>

definition get_or :: "'a option \<Rightarrow> 'a \<Rightarrow> 'a" where
  "get_or v dflt = (case v of None \<Rightarrow> dflt | Some x \<Rightarrow> x)"

subsection \<open>Module constants\<close>

definition keywords_vish :: "pystr list" where
  "keywords_vish =
    [[1080, 1085, 1078, 1077, 1085, 1077, 1088, 1085, 1072, 1103, 32, 1096, 1082, 1086, 1083, 1072],
     [1056, 1059, 1058, 32, 1052, 1048, 1048, 1058],
     [1042, 1048, 1064]]"

definition keywords_high_speed :: "pystr list" where
  "keywords_high_speed =
    [[1042, 1057, 1052],
     [1089, 1082, 1086, 1088, 1086, 1089, 1090, 1085, 1099, 1077, 32, 1084, 1072, 1075, 1080,
      1089, 1090, 1088, 1072, 1083, 1080],
     [1074, 1099, 1089, 1086, 1082, 1086, 1089, 1082, 1086, 1088, 1086, 1089, 1090, 1085, 1086,
      1081]]"

definition keywords_rzd :: "pystr list" where
  "keywords_rzd =
    [[1056, 1046, 1044],
     [1056, 1086, 1089, 1089, 1080, 1081, 1089, 1082, 1080, 1077, 32, 1078, 1077, 1083, 1077,
      1079, 1085, 1099, 1077, 32, 1076, 1086, 1088, 1086, 1075, 1080]]"

text \<open>The labels \<open>'NEUTRAL'\<close>, \<open>'POSITIVE'\<close> and \<open>'NEGATIVE'\<close>.\<close>

definition NEUTRAL :: pystr where
  "NEUTRAL = [78, 69, 85, 84, 82, 65, 76]"

definition POSITIVE :: pystr where
  "POSITIVE = [80, 79, 83, 73, 84, 73, 86, 69]"

definition NEGATIVE :: pystr where
  "NEGATIVE = [78, 69, 71, 65, 84, 73, 86, 69]"

section \<open>NewsFetcher\<close>

text \<open>
  \<open>self.session.get(url, headers=HEADERS)\<close> is the program's one input from outside. It
  either raises a \<open>requests.exceptions.RequestException\<close> and gives no response object
  (a connection error, a timeout, the adapter's retries exhausted), or returns a response
  with a status code and a body. Of the body the program reads \<open>response.json()\<close>, which
  raises when the body is not JSON, and then the entry \<open>'articles'\<close> of the object, a list
  of dicts of which it reads \<open>'title'\<close>, \<open>'url'\<close> and \<open>'publishedAt'\<close>. The values
  found under these keys are taken to be strings.
\<close>

record raw_article =
  raw_title :: "pystr option"
  url :: "pystr option"
  publishedAt :: "pystr option"

datatype json_body = NotJson | JsonObject "raw_article list option"

datatype http_outcome = GetRaised | Response nat json_body

text \<open>The records \<open>fetch_news\<close> hands to \<open>logging\<close>, in the order of the calls.\<close>

datatype log_record =
    InfoRequest pystr
  | ErrorRequest
  | ErrorStatusCode nat
  | ErrorResponseContent json_body
  | InfoNoArticles pystr
  | DebugFetched "article list"

text \<open>
  The list comprehension of line 51: one new dict per entry of the response, with
  \<open>article['title']\<close>, \<open>article['url']\<close> and \<open>article['publishedAt']\<close> looked up in
  that order.
\<close>

fun project_articles :: "raw_article list \<Rightarrow> py_error + article list" where
  "project_articles [] = Inr []"
| "project_articles (a # articles) =
     (case getitem (raw_title a) of
        Inl e \<Rightarrow> Inl e
      | Inr t \<Rightarrow>
     (case getitem (url a) of
        Inl e \<Rightarrow> Inl e
      | Inr u \<Rightarrow>
     (case getitem (publishedAt a) of
        Inl e \<Rightarrow> Inl e
      | Inr p \<Rightarrow>
     (case project_articles articles of
        Inl e \<Rightarrow> Inl e
      | Inr fetched \<Rightarrow>
          Inr (\<lparr>title = Some t, link = Some u, published = Some p, description = None,
                sentiment = None, subjectivity = None\<rparr> # fetched)))))"

text \<open>Each new dict is an object of its own: it gets the next free address.\<close>

fun new_dicts :: "article list \<Rightarrow> store \<Rightarrow> ref list \<times> store" where
  "new_dicts [] s = ([], s)"
| "new_dicts (a # fetched) s =
     (let r = next_ref s;
          (rs, s') = new_dicts fetched (s\<lparr>heap := (heap s)(r := a), next_ref := Suc r\<rparr>)
      in (r # rs, s'))"

text \<open>
  \<open>fetch_news\<close>, given what \<open>self.session.get\<close> did. \<open>response.raise_for_status()\<close>
  raises an \<open>HTTPError\<close>, a \<open>RequestException\<close>, for a status from 400 to 599. The
  handler reads the local variable \<open>response\<close>, which is bound only when
  \<open>self.session.get\<close> returned: when it raised, reading the variable raises
  \<open>UnboundLocalError\<close> inside the handler, and that leaves the function.
\<close>

definition fetch_news ::
  "http_outcome \<Rightarrow> pystr \<Rightarrow> store \<Rightarrow> log_record list \<times> (py_error + ref list \<times> store)" where
  "fetch_news outcome query s =
     (case outcome of
        GetRaised \<Rightarrow> ([InfoRequest query, ErrorRequest], Inl UnboundLocalError)
      | Response status_code body \<Rightarrow>
          if 400 \<le> status_code \<and> status_code < 600
          then ([InfoRequest query, ErrorRequest, ErrorStatusCode status_code,
                 ErrorResponseContent body], Inr ([], s))
          else (case body of
                  NotJson \<Rightarrow> ([InfoRequest query], Inl JSONDecodeError)
                | JsonObject entry \<Rightarrow>
                    (let articles = get_or entry [];
                         log = InfoRequest query #
                               (if articles = [] then [InfoNoArticles query] else [])
                     in case project_articles articles of
                          Inl e \<Rightarrow> (log, Inl e)
                        | Inr fetched \<Rightarrow>
                            (log @ [DebugFetched fetched], Inr (new_dicts fetched s)))))"

definition fetch_vish_news ::
  "http_outcome \<Rightarrow> store \<Rightarrow> log_record list \<times> (py_error + ref list \<times> store)" where
  "fetch_vish_news outcome s =
     fetch_news outcome
       [1042, 1099, 1089, 1096, 1072, 1103, 32, 1080, 1085, 1078, 1077, 1085, 1077, 1088, 1085,
        1072, 1103, 32, 1096, 1082, 1086, 1083, 1072] s"

definition fetch_high_speed_railways ::
  "http_outcome \<Rightarrow> store \<Rightarrow> log_record list \<times> (py_error + ref list \<times> store)" where
  "fetch_high_speed_railways outcome s = fetch_news outcome [1042, 1057, 1052] s"

definition fetch_russian_railways ::
  "http_outcome \<Rightarrow> store \<Rightarrow> log_record list \<times> (py_error + ref list \<times> store)" where
  "fetch_russian_railways outcome s =
     fetch_news outcome
       [1056, 1046, 1044, 32, 1056, 1086, 1089, 1089, 1080, 1081, 1089, 1082, 1080, 1077, 32,
        1046, 1077, 1083, 1077, 1079, 1085, 1099, 1077, 32, 1076, 1086, 1088, 1086, 1075, 1080] s"

section \<open>NewsParser\<close>

subsection \<open>Deduplication by link (\<open>main\<close>, line 156)\<close>

text \<open>
  \<open>{entry['link']: entry for entry in all_articles}.values()\<close>. A Python dict keeps its
  keys in insertion order: storing under a key already present replaces the value where
  the key stands, storing under a new key appends.
\<close>

fun dict_setitem :: "('k \<times> 'v) list \<Rightarrow> 'k \<Rightarrow> 'v \<Rightarrow> ('k \<times> 'v) list" where
  "dict_setitem [] k v = [(k, v)]"
| "dict_setitem ((k', v') # d) k v =
     (if k' = k then (k', v) # d else (k', v') # dict_setitem d k v)"

fun dict_by_link :: "heap \<Rightarrow> ref list \<Rightarrow> (pystr \<times> ref) list \<Rightarrow> py_error + (pystr \<times> ref) list" where
  "dict_by_link h [] d = Inr d"
| "dict_by_link h (entry # rest) d =
     (case getitem (link (h entry)) of
        Inl e \<Rightarrow> Inl e
      | Inr k \<Rightarrow> dict_by_link h rest (dict_setitem d k entry))"

definition dict_values :: "('k \<times> 'v) list \<Rightarrow> 'v list" where
  "dict_values d = map snd d"

definition unique_articles :: "heap \<Rightarrow> ref list \<Rightarrow> py_error + ref list" where
  "unique_articles h all_articles =
     (case dict_by_link h all_articles [] of
        Inl e \<Rightarrow> Inl e
      | Inr d \<Rightarrow> Inr (dict_values d))"

subsection \<open>\<open>filter_and_sort_articles\<close>\<close>

text \<open>
  \<open>sorted(articles, key=lambda x: x['published'], reverse=True)\<close>. The keys are computed
  first, one per article in list order, so a missing \<open>published\<close> raises before anything
  is compared. The sort is stable; with \<open>reverse=True\<close> the list is reversed, sorted
  ascending and reversed again, which keeps articles of equal key in their input order.
\<close>

fun published_keys :: "heap \<Rightarrow> ref list \<Rightarrow> py_error + (pystr \<times> ref) list" where
  "published_keys h [] = Inr []"
| "published_keys h (x # xs) =
     (case getitem (published (h x)) of
        Inl e \<Rightarrow> Inl e
      | Inr k \<Rightarrow> (case published_keys h xs of
                    Inl e \<Rightarrow> Inl e
                  | Inr kxs \<Rightarrow> Inr ((k, x) # kxs)))"

definition filter_and_sort_articles :: "heap \<Rightarrow> ref list \<Rightarrow> py_error + ref list" where
  "filter_and_sort_articles h articles =
     (case published_keys h articles of
        Inl e \<Rightarrow> Inl e
      | Inr kxs \<Rightarrow> Inr (map snd (rev (sort_key fst (rev kxs)))))"

subsection \<open>\<open>analyze_sentiment\<close> and \<open>adjust_subjectivity\<close>\<close>

text \<open>
  The classifier \<open>self.sentiment_model\<close> is a parameter: \<open>sentiment_model t\<close> is the pair
  of \<open>result['label']\<close> and \<open>result['score']\<close> of \<open>self.sentiment_model(t)[0]\<close>. Both
  functions assign into the dict objects and return the list they were given, so the
  model returns the heap after the loop.
\<close>

fun analyze_sentiment :: "(pystr \<Rightarrow> pystr \<times> rat) \<Rightarrow> heap \<Rightarrow> ref list \<Rightarrow> py_error + heap" where
  "analyze_sentiment sentiment_model h [] = Inr h"
| "analyze_sentiment sentiment_model h (a # articles) =
     (case getitem (title (h a)) of
        Inl e \<Rightarrow> Inl e
      | Inr t \<Rightarrow>
          (let result = sentiment_model t;
               h1 = h(a := (h a)\<lparr>sentiment := Some (fst result)\<rparr>);
               h2 = h1(a := (h1 a)\<lparr>subjectivity := Some (snd result)\<rparr>)
           in analyze_sentiment sentiment_model h2 articles))"

fun adjust_subjectivity :: "heap \<Rightarrow> ref list \<Rightarrow> py_error + heap" where
  "adjust_subjectivity h [] = Inr h"
| "adjust_subjectivity h (a # articles) =
     (case getitem (sentiment (h a)) of
        Inl e \<Rightarrow> Inl e
      | Inr s \<Rightarrow>
          (if s = NEUTRAL
           then adjust_subjectivity (h(a := (h a)\<lparr>subjectivity := Some (1 / 10)\<rparr>)) articles
           else adjust_subjectivity h articles))"

subsection \<open>\<open>filter_articles_by_keywords\<close>\<close>

text \<open>\<open>needle in haystack\<close> on strings: the needle occurs at some position.\<close>

fun startswith :: "pystr \<Rightarrow> pystr \<Rightarrow> bool" where
  "startswith s [] = True"
| "startswith [] (p # ps) = False"
| "startswith (c # cs) (p # ps) = (c = p \<and> startswith cs ps)"

fun str_contains :: "pystr \<Rightarrow> pystr \<Rightarrow> bool" where
  "str_contains [] needle = (needle = [])"
| "str_contains (c # cs) needle = (startswith (c # cs) needle \<or> str_contains cs needle)"

text \<open>\<open>any(keyword in title or keyword in summary for keyword in keywords)\<close>\<close>

fun any_keyword :: "pystr \<Rightarrow> pystr \<Rightarrow> pystr list \<Rightarrow> bool" where
  "any_keyword t summary [] = False"
| "any_keyword t summary (keyword # keywords) =
     (if str_contains t keyword \<or> str_contains summary keyword then True
      else any_keyword t summary keywords)"

text \<open>The loop, with \<open>filtered_articles\<close> as its accumulator.\<close>

fun filter_loop :: "heap \<Rightarrow> pystr list \<Rightarrow> ref list \<Rightarrow> ref list \<Rightarrow> ref list" where
  "filter_loop h keywords filtered_articles [] = filtered_articles"
| "filter_loop h keywords filtered_articles (a # articles) =
     (let t = get_or (title (h a)) [];
          summary = get_or (description (h a)) []
      in if any_keyword t summary keywords
         then filter_loop h keywords (filtered_articles @ [a]) articles
         else filter_loop h keywords filtered_articles articles)"

definition filter_articles_by_keywords :: "heap \<Rightarrow> ref list \<Rightarrow> pystr list \<Rightarrow> ref list" where
  "filter_articles_by_keywords h articles keywords = filter_loop h keywords [] articles"

text \<open>
  The condition of the filter in the words of the specification, to compare the loop
  with: some keyword is a substring of the title or of the description of the article,
  each read as the empty string when absent.
\<close>

definition matches_keywords :: "pystr list \<Rightarrow> article \<Rightarrow> bool" where
  "matches_keywords keywords a =
     (\<exists>k\<in>set keywords. sublist k (get_or (title a) []) \<or> sublist k (get_or (description a) []))"

subsection \<open>\<open>create_dashboard\<close>\<close>

text \<open>
  The dashboard is the fixed head, one \<open><li>\<close> per entry of \<open>data\<close> and the fixed tail.
  The model keeps the list of items, each with the values interpolated into it; the
  rendering of the subjectivity with two decimals is not modelled. The colour line reads
  \<open>entry['sentiment']\<close> first, then the f-string reads \<open>link\<close>, \<open>title\<close>,
  \<open>published\<close>, \<open>sentiment\<close> and \<open>subjectivity\<close>.
\<close>

record list_item =
  href :: pystr
  color :: pystr
  item_title :: pystr
  item_published :: pystr
  item_sentiment :: pystr
  item_subjectivity :: rat

definition sentiment_color :: "pystr \<Rightarrow> pystr" where
  "sentiment_color s =
     (if s = POSITIVE then [103, 114, 101, 101, 110]
      else if s = NEGATIVE then [114, 101, 100]
      else [103, 114, 97, 121])"

definition render_entry :: "article \<Rightarrow> py_error + list_item" where
  "render_entry entry =
     (case getitem (sentiment entry) of Inl e \<Rightarrow> Inl e | Inr s \<Rightarrow>
     (case getitem (link entry) of Inl e \<Rightarrow> Inl e | Inr l \<Rightarrow>
     (case getitem (title entry) of Inl e \<Rightarrow> Inl e | Inr t \<Rightarrow>
     (case getitem (published entry) of Inl e \<Rightarrow> Inl e | Inr p \<Rightarrow>
     (case getitem (subjectivity entry) of Inl e \<Rightarrow> Inl e | Inr v \<Rightarrow>
        Inr \<lparr>href = l, color = sentiment_color s, item_title = t, item_published = p,
             item_sentiment = s, item_subjectivity = v\<rparr>)))))"

fun create_dashboard :: "heap \<Rightarrow> ref list \<Rightarrow> py_error + list_item list" where
  "create_dashboard h [] = Inr []"
| "create_dashboard h (entry # data) =
     (case render_entry (h entry) of
        Inl e \<Rightarrow> Inl e
      | Inr item \<Rightarrow> (case create_dashboard h data of
                       Inl e \<Rightarrow> Inl e
                     | Inr items \<Rightarrow> Inr (item # items)))"

subsection \<open>\<open>save_to_json\<close> and \<open>main\<close>\<close>

text \<open>
  \<open>json.dump\<close> writes, for each key of \<open>result\<close>, the dicts its list refers to as they
  are when it runs.
\<close>

definition save_to_json :: "heap \<Rightarrow> (string \<times> ref list) list \<Rightarrow> (string \<times> article list) list" where
  "save_to_json h result = map (\<lambda>(key, articles). (key, map h articles)) result"

text \<open>What a run leaves behind: \<open>all_articles.json\<close> and \<open>news_dashboard.html\<close>.\<close>

record files =
  all_articles_json :: "(string \<times> article list) list"
  news_dashboard_html :: "list_item list"

definition and_then :: "py_error + 'a \<Rightarrow> ('a \<Rightarrow> py_error + 'b) \<Rightarrow> py_error + 'b" where
  "and_then r f = (case r of Inl e \<Rightarrow> Inl e | Inr x \<Rightarrow> f x)"

text \<open>
  \<open>main\<close>, given the classifier and what \<open>self.session.get\<close> does for each of the three
  queries. An exception raised anywhere ends the run. The log is not part of the result.
\<close>

definition main ::
  "(pystr \<Rightarrow> pystr \<times> rat) \<Rightarrow> http_outcome \<Rightarrow> http_outcome \<Rightarrow> http_outcome \<Rightarrow> store
     \<Rightarrow> py_error + files" where
  "main sentiment_model get_vish get_high_speed get_rzd s0 =
     and_then (snd (fetch_vish_news get_vish s0)) (\<lambda>(vish_news, s1).
     and_then (snd (fetch_high_speed_railways get_high_speed s1)) (\<lambda>(high_speed_news, s2).
     and_then (snd (fetch_russian_railways get_rzd s2)) (\<lambda>(russian_railways_news, s3).
     let all_articles = vish_news @ high_speed_news @ russian_railways_news in
     and_then (unique_articles (heap s3) all_articles) (\<lambda>unique.
     and_then (filter_and_sort_articles (heap s3) unique) (\<lambda>sorted_articles.
     and_then (analyze_sentiment sentiment_model (heap s3) sorted_articles) (\<lambda>h4.
     let analyzed_articles = sorted_articles in
     and_then (adjust_subjectivity h4 analyzed_articles) (\<lambda>h5.
     let adjusted_articles = analyzed_articles;
         filtered_vish = filter_articles_by_keywords h5 adjusted_articles keywords_vish;
         filtered_high_speed =
           filter_articles_by_keywords h5 adjusted_articles keywords_high_speed;
         filtered_rzd = filter_articles_by_keywords h5 adjusted_articles keywords_rzd;
         final_articles = filtered_vish @ filtered_high_speed @ filtered_rzd;
         result = [(''unique_articles'', unique),
                   (''analyzed_articles'', analyzed_articles),
                   (''filtered_vish'', filtered_vish),
                   (''filtered_high_speed'', filtered_high_speed),
                   (''filtered_rzd'', filtered_rzd),
                   (''final_articles'', final_articles)];
         json = save_to_json h5 result
     in and_then (create_dashboard h5 final_articles) (\<lambda>dashboard.
          Inr \<lparr>all_articles_json = json, news_dashboard_html = dashboard\<rparr>))))))))"

subsection \<open>Runs that complete\<close>

text \<open>
  The responses \<open>fetch_news\<close> returns a list for: one with a status from 400 to 599, or
  one whose body is a JSON object in which every entry of \<open>'articles'\<close> has the three
  keys the list comprehension reads.
\<close>

definition complete_entry :: "raw_article \<Rightarrow> bool" where
  "complete_entry a \<longleftrightarrow> raw_title a \<noteq> None \<and> url a \<noteq> None \<and> publishedAt a \<noteq> None"

definition returns_list :: "http_outcome \<Rightarrow> bool" where
  "returns_list outcome =
     (case outcome of
        GetRaised \<Rightarrow> False
      | Response status_code body \<Rightarrow>
          (400 \<le> status_code \<and> status_code < 600) \<or>
          (case body of
             NotJson \<Rightarrow> False
           | JsonObject entry \<Rightarrow> list_all complete_entry (get_or entry [])))"

section \<open>An example run\<close>

text \<open>
  The first query is answered with two articles, at the links \<open>A\<close> and \<open>B\<close>; the second
  with one article, again at the link \<open>A\<close> and with another title; the third with status
  404. The classifier calls the title of the article at \<open>B\<close> neutral with score 0.87 and
  every other title positive with score 0.9.
\<close>

definition no_keys :: article where
  "no_keys = \<lparr>title = None, link = None, published = None, description = None,
              sentiment = None, subjectivity = None\<rparr>"

definition ex_store :: store where
  "ex_store = \<lparr>heap = (\<lambda>_. no_keys), next_ref = 0\<rparr>"

definition ex_vish :: http_outcome where
  "ex_vish = Response 200 (JsonObject (Some
     [\<lparr>raw_title = Some [1056, 1046, 1044], url = Some [65],
       publishedAt = Some [50, 48, 50, 52, 45, 48, 49]\<rparr>,
      \<lparr>raw_title = Some [1042, 1048, 1064], url = Some [66],
       publishedAt = Some [50, 48, 50, 52, 45, 48, 51]\<rparr>]))"

definition ex_high_speed :: http_outcome where
  "ex_high_speed = Response 200 (JsonObject (Some
     [\<lparr>raw_title = Some [1056, 1046, 1044, 32, 1042, 1057, 1052], url = Some [65],
       publishedAt = Some [50, 48, 50, 52, 45, 48, 49]\<rparr>]))"

definition ex_rzd :: http_outcome where
  "ex_rzd = Response 404 NotJson"

definition ex_model :: "pystr \<Rightarrow> pystr \<times> rat" where
  "ex_model t = (if t = [1042, 1048, 1064] then (NEUTRAL, 87 / 100) else (POSITIVE, 9 / 10))"

text \<open>The heap once the three queries are answered: the dicts at the addresses 0, 1 and 2.\<close>

definition ex_heap :: heap where
  "ex_heap = (\<lambda>_. no_keys)
     (0 := \<lparr>title = Some [1056, 1046, 1044], link = Some [65],
            published = Some [50, 48, 50, 52, 45, 48, 49], description = None,
            sentiment = None, subjectivity = None\<rparr>,
      1 := \<lparr>title = Some [1042, 1048, 1064], link = Some [66],
            published = Some [50, 48, 50, 52, 45, 48, 51], description = None,
            sentiment = None, subjectivity = None\<rparr>,
      2 := \<lparr>title = Some [1056, 1046, 1044, 32, 1042, 1057, 1052], link = Some [65],
            published = Some [50, 48, 50, 52, 45, 48, 49], description = None,
            sentiment = None, subjectivity = None\<rparr>)"

text \<open>The same heap once \<open>analyze_sentiment\<close> has scored the articles at 1 and 2.\<close>

definition ex_scored :: heap where
  "ex_scored = ex_heap
     (1 := \<lparr>title = Some [1042, 1048, 1064], link = Some [66],
            published = Some [50, 48, 50, 52, 45, 48, 51], description = None,
            sentiment = Some NEUTRAL, subjectivity = Some (87 / 100)\<rparr>,
      2 := \<lparr>title = Some [1056, 1046, 1044, 32, 1042, 1057, 1052], link = Some [65],
            published = Some [50, 48, 50, 52, 45, 48, 49], description = None,
            sentiment = Some POSITIVE, subjectivity = Some (9 / 10)\<rparr>)"

text \<open>
  What the run writes: the two articles as they are when the report is written, and the
  list items rendered for them.
\<close>

definition ex_article_a :: article where
  "ex_article_a =
     \<lparr>title = Some [1056, 1046, 1044, 32, 1042, 1057, 1052], link = Some [65],
      published = Some [50, 48, 50, 52, 45, 48, 49], description = None,
      sentiment = Some POSITIVE, subjectivity = Some (9 / 10)\<rparr>"

definition ex_article_b :: article where
  "ex_article_b =
     \<lparr>title = Some [1042, 1048, 1064], link = Some [66],
      published = Some [50, 48, 50, 52, 45, 48, 51], description = None,
      sentiment = Some NEUTRAL, subjectivity = Some (1 / 10)\<rparr>"

definition ex_item_a :: list_item where
  "ex_item_a =
     \<lparr>href = [65], color = [103, 114, 101, 101, 110],
      item_title = [1056, 1046, 1044, 32, 1042, 1057, 1052],
      item_published = [50, 48, 50, 52, 45, 48, 49],
      item_sentiment = POSITIVE, item_subjectivity = 9 / 10\<rparr>"

definition ex_item_b :: list_item where
  "ex_item_b =
     \<lparr>href = [66], color = [103, 114, 97, 121],
      item_title = [1042, 1048, 1064],
      item_published = [50, 48, 50, 52, 45, 48, 51],
      item_sentiment = NEUTRAL, item_subjectivity = 1 / 10\<rparr>"

definition ex_files :: files where
  "ex_files =
     \<lparr>all_articles_json =
        [(''unique_articles'', [ex_article_a, ex_article_b]),
         (''analyzed_articles'', [ex_article_b, ex_article_a]),
         (''filtered_vish'', [ex_article_b]),
         (''filtered_high_speed'', [ex_article_a]),
         (''filtered_rzd'', [ex_article_a]),
         (''final_articles'', [ex_article_b, ex_article_a, ex_article_a])],
      news_dashboard_html = [ex_item_b, ex_item_a, ex_item_a]\<rparr>"

section \<open>Deduplication\<close>

lemma dict_setitem_keys:
  "map fst (dict_setitem d k v) = (if k \<in> fst ` set d then map fst d else map fst d @ [k])"
  by (induction d) (force+)

lemma dict_setitem_map_of: "map_of (dict_setitem d k v) = (map_of d)(k \<mapsto> v)"
  by (induction d) (auto simp: fun_eq_iff)

text \<open>While every article has a link, the comprehension is a fold of \<open>dict_setitem\<close>.\<close>

lemma dict_by_link_fold:
  "\<forall>r\<in>set xs. link (h r) \<noteq> None \<Longrightarrow>
   dict_by_link h xs d = Inr (fold (\<lambda>r d. dict_setitem d (the (link (h r))) r) xs d)"
  by (induction xs arbitrary: d) (auto simp: getitem_def)

text \<open>
  \<open>remdups\<close> keeps the last occurrence of each element, so between two reversals it keeps
  the first one.
\<close>

lemma first_occurrences_Cons:
  "rev (remdups (rev (k # ks))) = k # rev (remdups (rev (filter (\<lambda>x. x \<noteq> k) ks)))"
proof -
  have "remdups (ys @ [k]) = remdups (filter (\<lambda>x. x \<noteq> k) ys) @ [k]" for ys
    by (induction ys) auto
  then show ?thesis by (simp add: rev_filter)
qed

lemma fold_setitem_keys:
  "map fst (fold (\<lambda>r d. dict_setitem d (f r) r) xs d) =
     map fst d @ rev (remdups (rev (filter (\<lambda>k. k \<notin> fst ` set d) (map f xs))))"
proof (induction xs arbitrary: d)
  case Nil
  show ?case by simp
next
  case (Cons x xs)
  have flt: "filter (\<lambda>k. k \<noteq> f x \<and> k \<notin> fst ` set d) (map f xs) =
             filter (\<lambda>k. k \<notin> fst ` set d \<and> k \<noteq> f x) (map f xs)"
    by (rule filter_cong) auto
  have keys: "fst ` set (dict_setitem d (f x) x) = insert (f x) (fst ` set d)"
    using arg_cong [OF dict_setitem_keys [of d "f x" x], of set] by (auto split: if_splits)
  show ?case
  proof (cases "f x \<in> fst ` set d")
    case True
    then have "insert (f x) (fst ` set d) = fst ` set d" by auto
    with True show ?thesis
      by (simp add: Cons.IH keys dict_setitem_keys del: rev.simps)
  next
    case False
    then show ?thesis
      by (simp add: Cons.IH keys dict_setitem_keys first_occurrences_Cons flt del: rev.simps)
  qed
qed

lemma fold_setitem_map_of:
  "map_of (fold (\<lambda>r d. dict_setitem d (f r) r) xs d) =
     map_of d ++ map_of (rev (map (\<lambda>x. (f x, x)) xs))"
  by (induction xs arbitrary: d) (simp_all add: dict_setitem_map_of)

lemma fold_setitem_distinct:
  "distinct (map fst d) \<Longrightarrow> distinct (map fst (fold (\<lambda>r d. dict_setitem d (f r) r) xs d))"
  by (induction xs arbitrary: d) (simp_all add: dict_setitem_keys)

lemma map_of_rev_last:
  "map_of (rev (map (\<lambda>x. (f x, x)) xs)) k =
     (if k \<in> f ` set xs then Some (last (filter (\<lambda>x. f x = k) xs)) else None)"
  by (induction xs rule: rev_induct) auto

text \<open>
  The dict the comprehension builds: its keys are distinct, they stand in the order of
  their first occurrence, and each is bound to the last article of the input with that
  link.
\<close>

lemma unique_articles_entries:
  assumes "\<forall>r\<in>set xs. link (h r) \<noteq> None"
  shows "\<exists>d. unique_articles h xs = Inr (map snd d) \<and>
           distinct (map fst d) \<and>
           map fst d = rev (remdups (rev (map (\<lambda>r. the (link (h r))) xs))) \<and>
           (\<forall>(k, r)\<in>set d. r \<in> set xs \<and> link (h r) = Some k \<and>
              r = last (filter (\<lambda>x. link (h x) = Some k) xs))"
proof -
  let ?f = "\<lambda>r. the (link (h r))"
  let ?d = "fold (\<lambda>r d. dict_setitem d (?f r) r) xs []"
  have lk: "\<exists>k. link (h r) = Some k" if "r \<in> set xs" for r
    using assms that by auto
  have run: "unique_articles h xs = Inr (map snd ?d)"
    by (simp add: unique_articles_def dict_values_def dict_by_link_fold [OF assms])
  have keys: "map fst ?d = rev (remdups (rev (map ?f xs)))"
    using fold_setitem_keys [of ?f xs "[]"] by simp
  have dist: "distinct (map fst ?d)"
    by (rule fold_setitem_distinct) simp
  have same: "filter (\<lambda>x. link (h x) = Some k) xs = filter (\<lambda>x. ?f x = k) xs" for k
    by (rule filter_cong) (auto dest: lk)
  have entry: "r \<in> set xs \<and> link (h r) = Some k \<and> r = last (filter (\<lambda>x. link (h x) = Some k) xs)"
    if "(k, r) \<in> set ?d" for k r
  proof -
    from that dist have "map_of ?d k = Some r" by simp
    then have m: "map_of (rev (map (\<lambda>x. (?f x, x)) xs)) k = Some r"
      by (simp add: fold_setitem_map_of)
    then have "(if k \<in> ?f ` set xs then Some (last (filter (\<lambda>x. ?f x = k) xs)) else None) = Some r"
      unfolding map_of_rev_last .
    then have k: "k \<in> ?f ` set xs" and r: "r = last (filter (\<lambda>x. ?f x = k) xs)"
      by (auto split: if_splits)
    from k have "filter (\<lambda>x. ?f x = k) xs \<noteq> []"
      by (auto simp: filter_empty_conv)
    from last_in_set [OF this] r have "r \<in> set (filter (\<lambda>x. ?f x = k) xs)" by simp
    then have "r \<in> set xs" "?f r = k" by simp_all
    moreover from this lk [of r] have "link (h r) = Some k" by auto
    ultimately show ?thesis using r by (simp add: same)
  qed
  show ?thesis
    using run dist keys entry by (intro exI [of _ ?d]) auto
qed

text \<open>
  C1. Where every article of the input has a link, the deduplication returns a list with
  exactly one article for each link of the input: the links of the result are pairwise
  different and are the links of the input, and the article kept for a link is the last
  article of the input with that link.
\<close>

theorem unique_articles_last_write_wins:
  assumes "\<forall>r\<in>set all_articles. link (h r) \<noteq> None"
  shows "\<exists>us. unique_articles h all_articles = Inr us \<and>
           distinct (map (\<lambda>r. link (h r)) us) \<and>
           (\<lambda>r. link (h r)) ` set us = (\<lambda>r. link (h r)) ` set all_articles \<and>
           (\<forall>r\<in>set us. r = last (filter (\<lambda>x. link (h x) = link (h r)) all_articles))"
proof -
  from unique_articles_entries [OF assms] obtain d where
    run: "unique_articles h all_articles = Inr (map snd d)" and
    dist: "distinct (map fst d)" and
    keys: "map fst d = rev (remdups (rev (map (\<lambda>r. the (link (h r))) all_articles)))" and
    entry: "\<forall>(k, r)\<in>set d. r \<in> set all_articles \<and> link (h r) = Some k \<and>
              r = last (filter (\<lambda>x. link (h x) = Some k) all_articles)"
    by blast
  have links: "map (\<lambda>r. link (h r)) (map snd d) = map Some (map fst d)"
    using entry by auto
  have "distinct (map Some ks) = distinct ks" for ks :: "pystr list"
    by (simp add: distinct_map)
  then have d1: "distinct (map (\<lambda>r. link (h r)) (map snd d))"
    unfolding links using dist by blast
  have "set (map (\<lambda>r. link (h r)) (map snd d)) = Some ` (\<lambda>r. the (link (h r))) ` set all_articles"
    unfolding links keys by simp
  also have "\<dots> = (\<lambda>r. link (h r)) ` set all_articles"
    using assms by (force simp: image_iff)
  finally have d2: "(\<lambda>r. link (h r)) ` set (map snd d) = (\<lambda>r. link (h r)) ` set all_articles"
    by (simp only: set_map)
  have d3: "\<forall>r\<in>set (map snd d). r = last (filter (\<lambda>x. link (h x) = link (h r)) all_articles)"
    using entry by force
  from run d1 d2 d3 show ?thesis by blast
qed

theorem unique_articles_last_write_wins_witness:
  "unique_articles ex_heap [0, 1, 2] = Inr [2, 1] \<and>
   link (ex_heap 2) = link (ex_heap 0) \<and> title (ex_heap 2) \<noteq> title (ex_heap 0) \<and>
   last (filter (\<lambda>x. link (ex_heap x) = link (ex_heap 2)) [0, 1, 2]) = 2"
proof -
  have present: "\<forall>r\<in>set [0, 1, 2]. link (ex_heap r) \<noteq> None"
    by (simp add: ex_heap_def)
  have run: "unique_articles ex_heap [0, 1, 2] = Inr [2, 1]"
    by (simp add: unique_articles_def dict_values_def getitem_def ex_heap_def)
  from unique_articles_last_write_wins [OF present] run
  have "\<forall>r\<in>set [2, 1]. r = last (filter (\<lambda>x. link (ex_heap x) = link (ex_heap r)) [0, 1, 2])"
    by auto
  then have "last (filter (\<lambda>x. link (ex_heap x) = link (ex_heap 2)) [0, 1, 2]) = 2"
    by simp
  with run show ?thesis by (simp add: ex_heap_def)
qed

text \<open>
  C8. Where every article of the input has a link, the links of the deduplicated list
  stand in the order in which they first occur in the input: they are the links of the
  input with every occurrence of a link but its first removed.
\<close>

theorem unique_articles_first_occurrence_order:
  assumes "\<forall>r\<in>set all_articles. link (h r) \<noteq> None"
  shows "\<exists>us. unique_articles h all_articles = Inr us \<and>
           map (\<lambda>r. link (h r)) us = rev (remdups (rev (map (\<lambda>r. link (h r)) all_articles)))"
proof -
  from unique_articles_entries [OF assms] obtain d where
    run: "unique_articles h all_articles = Inr (map snd d)" and
    keys: "map fst d = rev (remdups (rev (map (\<lambda>r. the (link (h r))) all_articles)))" and
    entry: "\<forall>(k, r)\<in>set d. r \<in> set all_articles \<and> link (h r) = Some k \<and>
              r = last (filter (\<lambda>x. link (h x) = Some k) all_articles)"
    by blast
  have links: "map (\<lambda>r. link (h r)) (map snd d) = map Some (map fst d)"
    using entry by auto
  have inj: "remdups (map Some ks) = map Some (remdups ks)" for ks :: "pystr list"
    by (induction ks) auto
  have "map (\<lambda>r. link (h r)) all_articles = map Some (map (\<lambda>r. the (link (h r))) all_articles)"
    using assms by auto
  then have "rev (remdups (rev (map (\<lambda>r. link (h r)) all_articles))) = map Some (map fst d)"
    by (simp only: keys rev_map inj)
  with run links show ?thesis by simp
qed

theorem unique_articles_first_occurrence_order_witness:
  "unique_articles ex_heap [0, 1, 2] = Inr [2, 1] \<and>
   map (\<lambda>r. link (ex_heap r)) [0, 1, 2] = [Some [65], Some [66], Some [65]] \<and>
   map (\<lambda>r. link (ex_heap r)) [2, 1] = [Some [65], Some [66]]"
proof -
  have present: "\<forall>r\<in>set [0, 1, 2]. link (ex_heap r) \<noteq> None"
    by (simp add: ex_heap_def)
  from unique_articles_first_occurrence_order [OF present] obtain us where
    "unique_articles ex_heap [0, 1, 2] = Inr us"
    "map (\<lambda>r. link (ex_heap r)) us = rev (remdups (rev (map (\<lambda>r. link (ex_heap r)) [0, 1, 2])))"
    by blast
  moreover have "unique_articles ex_heap [0, 1, 2] = Inr [2, 1]"
    by (simp add: unique_articles_def dict_values_def getitem_def ex_heap_def)
  ultimately show ?thesis by (simp add: ex_heap_def)
qed

section \<open>The keyword filter\<close>

lemma startswith_prefix: "startswith s p = prefix p s"
  by (induction s p rule: startswith.induct) auto

lemma str_contains_sublist: "str_contains s n = sublist n s"
  by (induction s) (auto simp: startswith_prefix sublist_Cons_right)

lemma any_keyword_iff:
  "any_keyword t s ks = (\<exists>k\<in>set ks. str_contains t k \<or> str_contains s k)"
  by (induction ks) auto

lemma filter_loop_filter:
  "filter_loop h ks acc xs =
     acc @ filter (\<lambda>a. any_keyword (get_or (title (h a)) []) (get_or (description (h a)) []) ks) xs"
  by (induction xs arbitrary: acc) (auto simp: Let_def)

text \<open>
  C4. The keyword filter returns the articles of its input, in input order, for which some
  keyword is a contiguous part of the title or of the description, each read as the empty
  string when the key is absent. It returns references into an unchanged heap.
\<close>

theorem filter_articles_by_keywords_subsequence:
  "filter_articles_by_keywords h articles keywords =
     filter (\<lambda>a. \<exists>k\<in>set keywords.
                sublist k (get_or (title (h a)) []) \<or> sublist k (get_or (description (h a)) []))
       articles"
  by (simp add: filter_articles_by_keywords_def filter_loop_filter any_keyword_iff
      str_contains_sublist)

theorem filter_articles_by_keywords_subsequence_witness:
  "filter_articles_by_keywords ex_heap [0, 1, 2] keywords_high_speed = [2] \<and>
   sublist [1042, 1057, 1052] (get_or (title (ex_heap 2)) [])"
proof -
  have run: "filter_articles_by_keywords ex_heap [0, 1, 2] keywords_high_speed = [2]"
    by (simp add: filter_articles_by_keywords_def keywords_high_speed_def get_or_def ex_heap_def)
  have "2 \<in> set (filter_articles_by_keywords ex_heap [0, 1, 2] keywords_high_speed)"
    unfolding run by simp
  then have "\<exists>k\<in>set keywords_high_speed.
      sublist k (get_or (title (ex_heap 2)) []) \<or> sublist k (get_or (description (ex_heap 2)) [])"
    unfolding filter_articles_by_keywords_subsequence set_filter by blast
  moreover have "sublist [1042, 1057, 1052] (get_or (title (ex_heap 2)) [])"
    using sublist_appendI [of "[1042, 1057, 1052]" "[1056, 1046, 1044, 32]" "[]"]
    by (simp add: get_or_def ex_heap_def)
  ultimately show ?thesis using run by simp
qed

section \<open>Sorting\<close>

lemma published_keys_map:
  "\<forall>r\<in>set xs. published (h r) \<noteq> None \<Longrightarrow>
   published_keys h xs = Inr (map (\<lambda>r. (the (published (h r)), r)) xs)"
  by (induction xs) (auto simp: getitem_def)

text \<open>
  C2. Where every article of the input has a \<open>published\<close> entry, the sort step returns a
  permutation of its input in which, of any two articles, the earlier one has the greater
  or equal \<open>published\<close> string in the lexicographic order.
\<close>

theorem filter_and_sort_articles_descending:
  assumes "\<forall>r\<in>set articles. published (h r) \<noteq> None"
  shows "\<exists>ys. filter_and_sort_articles h articles = Inr ys \<and>
           mset ys = mset articles \<and>
           sorted_wrt (\<lambda>a b. \<exists>p q. published (h a) = Some p \<and> published (h b) = Some q \<and> q \<le> p) ys"
proof -
  let ?f = "\<lambda>r. the (published (h r))"
  let ?kxs = "map (\<lambda>r. (?f r, r)) articles"
  let ?zs = "sort_key fst (rev ?kxs)"
  let ?ys = "map snd (rev ?zs)"
  have run: "filter_and_sort_articles h articles = Inr ?ys"
    by (simp add: filter_and_sort_articles_def published_keys_map [OF assms])
  have "mset ?ys = image_mset snd (mset ?kxs)"
    by simp
  also have "\<dots> = mset (map snd ?kxs)"
    by (simp only: mset_map)
  also have "map snd ?kxs = articles"
    by (simp add: comp_def)
  finally have perm: "mset ?ys = mset articles" .
  have "sorted (map fst ?zs)" by (rule sorted_sort_key)
  then have "sorted_wrt (\<lambda>a b. fst a \<le> fst b) ?zs"
    by (simp add: sorted_map)
  then have "sorted_wrt (\<lambda>a b. fst b \<le> fst a) (rev ?zs)"
    by (simp add: sorted_wrt_rev)
  then have "sorted_wrt (\<lambda>a b. \<exists>p q. published (h (snd a)) = Some p \<and>
                published (h (snd b)) = Some q \<and> q \<le> p) (rev ?zs)"
  proof (rule sorted_wrt_mono_rel [rotated])
    fix a b
    assume a: "a \<in> set (rev ?zs)" and b: "b \<in> set (rev ?zs)" and le: "fst b \<le> fst a"
    from a have a': "snd a \<in> set articles" "fst a = ?f (snd a)" by auto
    from b have b': "snd b \<in> set articles" "fst b = ?f (snd b)" by auto
    from assms a'(1) obtain p where p: "published (h (snd a)) = Some p" by auto
    from assms b'(1) obtain q where q: "published (h (snd b)) = Some q" by auto
    from le a'(2) b'(2) p q have "q \<le> p" by simp
    with p q show "\<exists>p q. published (h (snd a)) = Some p \<and>
                published (h (snd b)) = Some q \<and> q \<le> p"
      by blast
  qed
  then have "sorted_wrt (\<lambda>a b. \<exists>p q. published (h a) = Some p \<and> published (h b) = Some q \<and> q \<le> p) ?ys"
    by (simp add: sorted_wrt_map)
  with run perm show ?thesis by blast
qed

theorem filter_and_sort_articles_descending_witness:
  "filter_and_sort_articles ex_heap [2, 1] = Inr [1, 2] \<and>
   published (ex_heap 1) = Some [50, 48, 50, 52, 45, 48, 51] \<and>
   published (ex_heap 2) = Some [50, 48, 50, 52, 45, 48, 49] \<and>
   ([50, 48, 50, 52, 45, 48, 49] :: pystr) \<le> [50, 48, 50, 52, 45, 48, 51]"
proof -
  have present: "\<forall>r\<in>set [2, 1]. published (ex_heap r) \<noteq> None"
    by (simp add: ex_heap_def)
  have run: "filter_and_sort_articles ex_heap [2, 1] = Inr [1, 2]"
    by (simp add: filter_and_sort_articles_def getitem_def ex_heap_def)
  from filter_and_sort_articles_descending [OF present] run
  have "sorted_wrt (\<lambda>a b. \<exists>p q. published (ex_heap a) = Some p \<and>
          published (ex_heap b) = Some q \<and> q \<le> p) [1, 2]"
    by auto
  then have "\<exists>p q. published (ex_heap 1) = Some p \<and> published (ex_heap 2) = Some q \<and> q \<le> p"
    by simp
  with run show ?thesis by (simp add: ex_heap_def)
qed

section \<open>Sentiment and subjectivity\<close>

text \<open>
  Both loops in closed form: they raise \<open>KeyError\<close> exactly when an article of the list
  lacks the key they read, and otherwise change the dicts of the list only, each in the
  same way however often it occurs in the list.
\<close>

lemma adjust_subjectivity_eq:
  "adjust_subjectivity h xs =
     (if \<forall>r\<in>set xs. sentiment (h r) \<noteq> None
      then Inr (\<lambda>r. if r \<in> set xs \<and> sentiment (h r) = Some NEUTRAL
                     then (h r)\<lparr>subjectivity := Some (1 / 10)\<rparr> else h r)
      else Inl KeyError)"
proof (induction xs arbitrary: h)
  case Nil
  show ?case by simp
next
  case (Cons a xs)
  show ?case
  proof (cases "sentiment (h a)")
    case None
    then show ?thesis by (simp add: getitem_def)
  next
    case (Some s)
    show ?thesis
    proof (cases "s = NEUTRAL")
      case True
      let ?h1 = "h(a := (h a)\<lparr>subjectivity := Some (1 / 10)\<rparr>)"
      have same: "sentiment (?h1 r) = sentiment (h r)" for r by simp
      show ?thesis
        using Some True
        by (simp add: getitem_def Cons.IH [of ?h1] same del: fun_upd_apply)
           (auto simp: fun_eq_iff)
    next
      case False
      then show ?thesis
        using Some by (auto simp: getitem_def Cons.IH fun_eq_iff)
    qed
  qed
qed

lemma analyze_sentiment_eq:
  "analyze_sentiment m h xs =
     (if \<forall>r\<in>set xs. title (h r) \<noteq> None
      then Inr (\<lambda>r. if r \<in> set xs
                     then (h r)\<lparr>sentiment := Some (fst (m (the (title (h r))))),
                                subjectivity := Some (snd (m (the (title (h r)))))\<rparr>
                     else h r)
      else Inl KeyError)"
proof (induction xs arbitrary: h)
  case Nil
  show ?case by simp
next
  case (Cons a xs)
  show ?case
  proof (cases "title (h a)")
    case None
    then show ?thesis by (simp add: getitem_def)
  next
    case (Some t)
    let ?h2 = "h(a := (h a)\<lparr>sentiment := Some (fst (m t)), subjectivity := Some (snd (m t))\<rparr>)"
    have same: "title (?h2 r) = title (h r)" for r by simp
    have step: "analyze_sentiment m h (a # xs) = analyze_sentiment m ?h2 xs"
      using Some by (simp add: getitem_def Let_def)
    show ?thesis
      unfolding step Cons.IH [of ?h2] same
      using Some by (auto simp: fun_eq_iff)
  qed
qed

text \<open>
  C3. Where every article of the list has a sentiment, the adjustment returns a heap in
  which no sentiment has changed, every article of the list with sentiment \<open>NEUTRAL\<close> has
  subjectivity 0.1, and every article whose sentiment is not \<open>NEUTRAL\<close> has the
  subjectivity it had before, which is the score \<open>analyze_sentiment\<close> stored.
\<close>

theorem adjust_subjectivity_neutral_override:
  assumes "\<forall>r\<in>set articles. sentiment (h r) \<noteq> None"
  shows "\<exists>h'. adjust_subjectivity h articles = Inr h' \<and>
           (\<forall>r. sentiment (h' r) = sentiment (h r)) \<and>
           (\<forall>r\<in>set articles. sentiment (h r) = Some NEUTRAL \<longrightarrow>
              subjectivity (h' r) = Some (1 / 10)) \<and>
           (\<forall>r. sentiment (h r) \<noteq> Some NEUTRAL \<longrightarrow> subjectivity (h' r) = subjectivity (h r))"
  using assms by (simp add: adjust_subjectivity_eq)

theorem adjust_subjectivity_neutral_override_witness:
  "\<exists>h'. adjust_subjectivity ex_scored [1, 2] = Inr h' \<and>
         sentiment (ex_scored 1) = Some NEUTRAL \<and> subjectivity (ex_scored 1) = Some (87 / 100) \<and>
         sentiment (h' 1) = Some NEUTRAL \<and> subjectivity (h' 1) = Some (1 / 10) \<and>
         sentiment (ex_scored 2) = Some POSITIVE \<and> subjectivity (h' 2) = Some (9 / 10)"
proof -
  have present: "\<forall>r\<in>set [1, 2]. sentiment (ex_scored r) \<noteq> None"
    by (simp add: ex_scored_def)
  have s1: "sentiment (ex_scored 1) = Some NEUTRAL" "subjectivity (ex_scored 1) = Some (87 / 100)"
    by (simp_all add: ex_scored_def)
  have s2: "sentiment (ex_scored 2) = Some POSITIVE" "subjectivity (ex_scored 2) = Some (9 / 10)"
    by (simp_all add: ex_scored_def)
  have ne: "POSITIVE \<noteq> NEUTRAL"
    by (simp add: POSITIVE_def NEUTRAL_def)
  from adjust_subjectivity_neutral_override [OF present] obtain h' where
    run: "adjust_subjectivity ex_scored [1, 2] = Inr h'" and
    keep: "\<forall>r. sentiment (h' r) = sentiment (ex_scored r)" and
    neutral: "\<forall>r\<in>set [1, 2]. sentiment (ex_scored r) = Some NEUTRAL \<longrightarrow>
                subjectivity (h' r) = Some (1 / 10)" and
    other: "\<forall>r. sentiment (ex_scored r) \<noteq> Some NEUTRAL \<longrightarrow>
                subjectivity (h' r) = subjectivity (ex_scored r)"
    by blast
  from neutral s1 have "subjectivity (h' 1) = Some (1 / 10)" by simp
  moreover from other s2 ne have "subjectivity (h' 2) = Some (9 / 10)" by simp
  moreover from keep s1 have "sentiment (h' 1) = Some NEUTRAL" by simp
  ultimately show ?thesis using run s1 s2 by blast
qed

section \<open>Failed requests\<close>

text \<open>A response with an error status is logged and gives the empty list.\<close>

lemma fetch_news_http_error:
  "400 \<le> status_code \<Longrightarrow> status_code < 600 \<Longrightarrow>
   fetch_news (Response status_code body) query s =
     ([InfoRequest query, ErrorRequest, ErrorStatusCode status_code, ErrorResponseContent body],
      Inr ([], s))"
  by (simp add: fetch_news_def)

text \<open>
  C5. When \<open>self.session.get\<close> raises, so that there is no response object, \<open>fetch_news\<close>
  logs the request and the error and then leaves with \<open>UnboundLocalError\<close>: it returns
  no list.
\<close>

theorem fetch_news_get_raised:
  "fetch_news GetRaised query s = ([InfoRequest query, ErrorRequest], Inl UnboundLocalError)"
  by (simp add: fetch_news_def)

section \<open>The report and the dashboard\<close>

text \<open>
  What a completed run of \<open>main\<close> went through: every step returned, and the two files
  hold what the last steps computed.
\<close>

lemma and_then_Inr: "and_then r f = Inr y \<longleftrightarrow> (\<exists>x. r = Inr x \<and> f x = Inr y)"
  by (cases r) (simp_all add: and_then_def)

lemma main_Inr:
  assumes "main sentiment_model get_vish get_high_speed get_rzd s0 = Inr out"
  shows "\<exists>vish_news s1 high_speed_news s2 russian_railways_news s3 unique sorted_articles h4 h5
            filtered_vish filtered_high_speed filtered_rzd dashboard.
      snd (fetch_vish_news get_vish s0) = Inr (vish_news, s1) \<and>
      snd (fetch_high_speed_railways get_high_speed s1) = Inr (high_speed_news, s2) \<and>
      snd (fetch_russian_railways get_rzd s2) = Inr (russian_railways_news, s3) \<and>
      unique_articles (heap s3) (vish_news @ high_speed_news @ russian_railways_news) = Inr unique \<and>
      filter_and_sort_articles (heap s3) unique = Inr sorted_articles \<and>
      analyze_sentiment sentiment_model (heap s3) sorted_articles = Inr h4 \<and>
      adjust_subjectivity h4 sorted_articles = Inr h5 \<and>
      filtered_vish = filter_articles_by_keywords h5 sorted_articles keywords_vish \<and>
      filtered_high_speed = filter_articles_by_keywords h5 sorted_articles keywords_high_speed \<and>
      filtered_rzd = filter_articles_by_keywords h5 sorted_articles keywords_rzd \<and>
      create_dashboard h5 (filtered_vish @ filtered_high_speed @ filtered_rzd) = Inr dashboard \<and>
      all_articles_json out = save_to_json h5
        [(''unique_articles'', unique),
         (''analyzed_articles'', sorted_articles),
         (''filtered_vish'', filtered_vish),
         (''filtered_high_speed'', filtered_high_speed),
         (''filtered_rzd'', filtered_rzd),
         (''final_articles'', filtered_vish @ filtered_high_speed @ filtered_rzd)] \<and>
      news_dashboard_html out = dashboard"
  using assms
  unfolding main_def Let_def and_then_def
  by (simp split: sum.splits prod.splits) force

lemma dict_by_link_Inr_present:
  "dict_by_link h xs d = Inr d' \<Longrightarrow> \<forall>r\<in>set xs. link (h r) \<noteq> None"
  by (induction xs arbitrary: d) (auto simp: getitem_def split: option.splits)

lemma unique_articles_Inr_present:
  "unique_articles h xs = Inr us \<Longrightarrow> \<forall>r\<in>set xs. link (h r) \<noteq> None"
  by (auto simp: unique_articles_def split: sum.splits dest: dict_by_link_Inr_present)

lemma unique_articles_Inr_distinct:
  assumes "unique_articles h xs = Inr us"
  shows "distinct (map (\<lambda>r. link (h r)) us)"
proof -
  from unique_articles_entries [OF unique_articles_Inr_present [OF assms]] assms obtain d where
    us: "us = map snd d" and
    dist: "distinct (map fst d)" and
    entry: "\<forall>(k, r)\<in>set d. r \<in> set xs \<and> link (h r) = Some k \<and>
              r = last (filter (\<lambda>x. link (h x) = Some k) xs)"
    by auto
  have links: "map (\<lambda>r. link (h r)) (map snd d) = map Some (map fst d)"
    using entry by auto
  have "distinct (map Some ks) = distinct ks" for ks :: "pystr list"
    by (simp add: distinct_map)
  then show ?thesis
    unfolding us links using dist by blast
qed

lemma published_keys_Inr: "published_keys h xs = Inr kxs \<Longrightarrow> map snd kxs = xs"
  by (induction xs arbitrary: kxs) (auto split: sum.splits)

lemma filter_and_sort_articles_Inr_mset:
  assumes "filter_and_sort_articles h xs = Inr ys"
  shows "mset ys = mset xs"
proof -
  from assms obtain kxs where k: "published_keys h xs = Inr kxs"
    and ys: "ys = map snd (rev (sort_key fst (rev kxs)))"
    by (auto simp: filter_and_sort_articles_def split: sum.splits)
  have "mset ys = image_mset snd (mset kxs)"
    unfolding ys by simp
  also have "\<dots> = mset (map snd kxs)"
    by (simp only: mset_map)
  finally show ?thesis
    by (simp only: published_keys_Inr [OF k])
qed

lemma analyze_sentiment_Inr:
  assumes "analyze_sentiment m h xs = Inr h'"
  shows "link (h' r) = link (h r)" "title (h' r) = title (h r)"
    "description (h' r) = description (h r)" "published (h' r) = published (h r)"
    "r \<in> set xs \<Longrightarrow> sentiment (h' r) \<noteq> None \<and> subjectivity (h' r) \<noteq> None"
  using assms by (auto simp: analyze_sentiment_eq split: if_splits)

lemma adjust_subjectivity_Inr:
  assumes "adjust_subjectivity h xs = Inr h'"
  shows "link (h' r) = link (h r)" "title (h' r) = title (h r)"
    "description (h' r) = description (h r)" "published (h' r) = published (h r)"
    "sentiment (h' r) = sentiment (h r)"
    "subjectivity (h' r) = None \<Longrightarrow> subjectivity (h r) = None"
  using assms by (auto simp: adjust_subjectivity_eq split: if_splits)

lemma set_filter_articles_by_keywords:
  "set (filter_articles_by_keywords h xs ks) \<subseteq> set xs"
  by (simp add: filter_articles_by_keywords_def filter_loop_filter)

lemma map_filter_articles_by_keywords:
  "map h (filter_articles_by_keywords h xs ks) = filter (matches_keywords ks) (map h xs)"
  by (simp add: filter_articles_by_keywords_def filter_loop_filter any_keyword_iff
      str_contains_sublist filter_map comp_def matches_keywords_def)

lemma create_dashboard_hrefs:
  "create_dashboard h xs = Inr items \<Longrightarrow>
   map (\<lambda>item. Some (href item)) items = map (\<lambda>r. link (h r)) xs"
  by (induction xs arbitrary: items)
     (auto simp: render_entry_def getitem_def split: sum.splits option.splits)

lemma count_list_filter_distinct:
  "distinct xs \<Longrightarrow> a \<in> set xs \<Longrightarrow> count_list (filter P xs) a = of_bool (P a)"
  by (induction xs) auto

text \<open>
  \<open>main\<close> completes exactly when each of the three requests is answered with a response
  \<open>fetch_news\<close> returns a list for: the dicts \<open>fetch_news\<close> builds have \<open>title\<close>,
  \<open>link\<close> and \<open>published\<close>, later requests leave the dicts of earlier ones alone, and
  no later step reads a key that an earlier one has not set.
\<close>

lemma project_articles_Inr_iff:
  "(\<exists>fetched. project_articles articles = Inr fetched) \<longleftrightarrow> list_all complete_entry articles"
  by (induction articles)
     (auto simp: complete_entry_def getitem_def split: option.splits sum.splits)

lemma project_articles_keys:
  "project_articles articles = Inr fetched \<Longrightarrow>
   \<forall>a\<in>set fetched. title a \<noteq> None \<and> link a \<noteq> None \<and> published a \<noteq> None"
  by (induction articles arbitrary: fetched)
     (auto simp: getitem_def split: option.splits sum.splits)

lemma new_dicts_heap:
  "new_dicts fetched s = (rs, s') \<Longrightarrow>
   next_ref s \<le> next_ref s' \<and>
   (\<forall>r<next_ref s. heap s' r = heap s r) \<and>
   (\<forall>r\<in>set rs. next_ref s \<le> r \<and> r < next_ref s' \<and> heap s' r \<in> set fetched)"
proof (induction fetched arbitrary: s rs s')
  case Nil
  then show ?case by simp
next
  case (Cons a fetched)
  let ?s1 = "s\<lparr>heap := (heap s)(next_ref s := a), next_ref := Suc (next_ref s)\<rparr>"
  obtain rs0 s0 where rec: "new_dicts fetched ?s1 = (rs0, s0)"
    by (cases "new_dicts fetched ?s1")
  with Cons.prems have rs: "rs = next_ref s # rs0" and s': "s' = s0"
    by (simp_all add: Let_def)
  from Cons.IH [OF rec] have
    le: "Suc (next_ref s) \<le> next_ref s0" and
    old: "\<forall>r<Suc (next_ref s). heap s0 r = heap ?s1 r" and
    new: "\<forall>r\<in>set rs0. Suc (next_ref s) \<le> r \<and> r < next_ref s0 \<and> heap s0 r \<in> set fetched"
    by simp_all
  from old have here: "heap s0 (next_ref s) = a"
    by simp
  from old have below: "\<forall>r<next_ref s. heap s0 r = heap s r"
    by simp
  show ?case
    unfolding rs s' using le here below new by auto
qed

lemma fetch_news_returns_iff:
  "(\<exists>res. snd (fetch_news outcome query s) = Inr res) \<longleftrightarrow> returns_list outcome"
proof (cases outcome)
  case GetRaised
  then show ?thesis by (simp add: fetch_news_def returns_list_def)
next
  case (Response status_code body)
  show ?thesis
  proof (cases "400 \<le> status_code \<and> status_code < 600")
    case True
    with Response show ?thesis by (simp add: fetch_news_def returns_list_def)
  next
    case False
    show ?thesis
    proof (cases body)
      case NotJson
      with Response False show ?thesis by (simp add: fetch_news_def returns_list_def)
    next
      case (JsonObject entry)
      show ?thesis
      proof (cases "project_articles (get_or entry [])")
        case (Inl e)
        with project_articles_Inr_iff [of "get_or entry []"]
        have "\<not> list_all complete_entry (get_or entry [])" by simp
        with Response False JsonObject Inl show ?thesis
          by (simp add: fetch_news_def returns_list_def Let_def)
      next
        case (Inr fetched)
        with project_articles_Inr_iff [of "get_or entry []"]
        have "list_all complete_entry (get_or entry [])" by simp
        with Response False JsonObject Inr show ?thesis
          by (simp add: fetch_news_def returns_list_def Let_def)
      qed
    qed
  qed
qed

lemma fetch_news_heap:
  assumes "snd (fetch_news outcome query s) = Inr (rs, s')"
  shows "next_ref s \<le> next_ref s'" "r < next_ref s \<Longrightarrow> heap s' r = heap s r"
    "r \<in> set rs \<Longrightarrow> r < next_ref s' \<and> title (heap s' r) \<noteq> None \<and>
       link (heap s' r) \<noteq> None \<and> published (heap s' r) \<noteq> None"
proof -
  have "next_ref s \<le> next_ref s' \<and> (\<forall>r<next_ref s. heap s' r = heap s r) \<and>
    (\<forall>r\<in>set rs. r < next_ref s' \<and> title (heap s' r) \<noteq> None \<and>
       link (heap s' r) \<noteq> None \<and> published (heap s' r) \<noteq> None)"
  proof (cases outcome)
    case GetRaised
    with assms show ?thesis by (simp add: fetch_news_def)
  next
    case (Response status_code body)
    show ?thesis
    proof (cases "400 \<le> status_code \<and> status_code < 600")
      case True
      with assms Response show ?thesis by (simp add: fetch_news_def)
    next
      case False
      with assms Response obtain entry fetched where
        p: "project_articles (get_or entry []) = Inr fetched" and
        n: "new_dicts fetched s = (rs, s')"
        by (auto simp: fetch_news_def Let_def split: json_body.splits sum.splits)
      from new_dicts_heap [OF n] project_articles_keys [OF p] show ?thesis
        by (auto simp del: not_None_eq)
    qed
  qed
  then show "next_ref s \<le> next_ref s'" "r < next_ref s \<Longrightarrow> heap s' r = heap s r"
    "r \<in> set rs \<Longrightarrow> r < next_ref s' \<and> title (heap s' r) \<noteq> None \<and>
       link (heap s' r) \<noteq> None \<and> published (heap s' r) \<noteq> None"
    by blast+
qed

lemma create_dashboard_returns:
  "\<forall>r\<in>set xs. sentiment (h r) \<noteq> None \<and> link (h r) \<noteq> None \<and> title (h r) \<noteq> None \<and>
      published (h r) \<noteq> None \<and> subjectivity (h r) \<noteq> None \<Longrightarrow>
   \<exists>items. create_dashboard h xs = Inr items"
  by (induction xs) (auto simp: render_entry_def getitem_def)

lemma filter_and_sort_articles_returns:
  "\<forall>r\<in>set xs. published (h r) \<noteq> None \<Longrightarrow> \<exists>ys. filter_and_sort_articles h xs = Inr ys"
  by (simp add: filter_and_sort_articles_def published_keys_map)

lemma unique_articles_returns:
  assumes "\<forall>r\<in>set xs. link (h r) \<noteq> None"
  shows "\<exists>us. unique_articles h xs = Inr us \<and> set us \<subseteq> set xs"
proof -
  from unique_articles_entries [OF assms] obtain d where
    u: "unique_articles h xs = Inr (map snd d)" and
    e: "\<forall>(k, r)\<in>set d. r \<in> set xs \<and> link (h r) = Some k \<and>
          r = last (filter (\<lambda>x. link (h x) = Some k) xs)"
    by blast
  from e have "set (map snd d) \<subseteq> set xs"
    by auto
  with u show ?thesis by blast
qed

lemma main_returns_iff:
  "(\<exists>out. main sentiment_model get_vish get_high_speed get_rzd s0 = Inr out) \<longleftrightarrow>
   returns_list get_vish \<and> returns_list get_high_speed \<and> returns_list get_rzd"
proof
  assume "\<exists>out. main sentiment_model get_vish get_high_speed get_rzd s0 = Inr out"
  then obtain out where "main sentiment_model get_vish get_high_speed get_rzd s0 = Inr out" ..
  from main_Inr [OF this] obtain s1 s2 :: store and r1 r2 r3 where
    "snd (fetch_vish_news get_vish s0) = Inr r1"
    "snd (fetch_high_speed_railways get_high_speed s1) = Inr r2"
    "snd (fetch_russian_railways get_rzd s2) = Inr r3"
    by blast
  then show "returns_list get_vish \<and> returns_list get_high_speed \<and> returns_list get_rzd"
    unfolding fetch_vish_news_def fetch_high_speed_railways_def fetch_russian_railways_def
    using fetch_news_returns_iff by blast
next
  assume ok: "returns_list get_vish \<and> returns_list get_high_speed \<and> returns_list get_rzd"
  let ?keys = "\<lambda>a. title a \<noteq> None \<and> link a \<noteq> None \<and> published a \<noteq> None"
  from ok fetch_news_returns_iff [of get_vish _ s0] obtain vish_news s1 where
    f1: "snd (fetch_vish_news get_vish s0) = Inr (vish_news, s1)"
    unfolding fetch_vish_news_def by fast
  from ok fetch_news_returns_iff [of get_high_speed _ s1] obtain high_speed_news s2 where
    f2: "snd (fetch_high_speed_railways get_high_speed s1) = Inr (high_speed_news, s2)"
    unfolding fetch_high_speed_railways_def by fast
  from ok fetch_news_returns_iff [of get_rzd _ s2] obtain russian_railways_news s3 where
    f3: "snd (fetch_russian_railways get_rzd s2) = Inr (russian_railways_news, s3)"
    unfolding fetch_russian_railways_def by fast
  note h1 = fetch_news_heap [OF f1 [unfolded fetch_vish_news_def]]
  note h2 = fetch_news_heap [OF f2 [unfolded fetch_high_speed_railways_def]]
  note h3 = fetch_news_heap [OF f3 [unfolded fetch_russian_railways_def]]
  let ?all = "vish_news @ high_speed_news @ russian_railways_news"
  have k1: "?keys (heap s3 r)" if "r \<in> set vish_news" for r
  proof -
    from h1(3) [OF that] have "r < next_ref s1" and k: "?keys (heap s1 r)" by blast+
    with h1(1) h2(1) have "r < next_ref s2" by simp
    with h3(2) [of r] h2(2) [of r] \<open>r < next_ref s1\<close> have "heap s3 r = heap s1 r" by simp
    with k show ?thesis by simp
  qed
  have k2: "?keys (heap s3 r)" if "r \<in> set high_speed_news" for r
  proof -
    from h2(3) [OF that] have "r < next_ref s2" and k: "?keys (heap s2 r)" by blast+
    with h3(2) [of r] have "heap s3 r = heap s2 r" by simp
    with k show ?thesis by simp
  qed
  have k3: "?keys (heap s3 r)" if "r \<in> set russian_railways_news" for r
    using h3(3) [OF that] by blast
  have keys: "?keys (heap s3 r)" if "r \<in> set ?all" for r
    using that k1 k2 k3 by (auto simp del: not_None_eq)
  from keys have "\<forall>r\<in>set ?all. link (heap s3 r) \<noteq> None" by blast
  from unique_articles_returns [OF this] obtain unique where
    u: "unique_articles (heap s3) ?all = Inr unique" and usub: "set unique \<subseteq> set ?all"
    by blast
  from usub keys have "\<forall>r\<in>set unique. published (heap s3 r) \<noteq> None" by blast
  from filter_and_sort_articles_returns [OF this] obtain sorted_articles where
    so: "filter_and_sort_articles (heap s3) unique = Inr sorted_articles"
    by blast
  from filter_and_sort_articles_Inr_mset [OF so] have "set sorted_articles = set unique"
    by (metis set_mset_mset)
  with usub keys have skeys: "?keys (heap s3 r)" if "r \<in> set sorted_articles" for r
    using that by blast
  then have "\<forall>r\<in>set sorted_articles. title (heap s3 r) \<noteq> None" by blast
  then obtain h4 where an: "analyze_sentiment sentiment_model (heap s3) sorted_articles = Inr h4"
    by (simp add: analyze_sentiment_eq)
  from analyze_sentiment_Inr(5) [OF an]
  have "\<forall>r\<in>set sorted_articles. sentiment (h4 r) \<noteq> None" by blast
  then obtain h5 where ad: "adjust_subjectivity h4 sorted_articles = Inr h5"
    by (simp add: adjust_subjectivity_eq)
  let ?fv = "filter_articles_by_keywords h5 sorted_articles keywords_vish"
  let ?fh = "filter_articles_by_keywords h5 sorted_articles keywords_high_speed"
  let ?fr = "filter_articles_by_keywords h5 sorted_articles keywords_rzd"
  have full: "sentiment (h5 r) \<noteq> None \<and> link (h5 r) \<noteq> None \<and> title (h5 r) \<noteq> None \<and>
      published (h5 r) \<noteq> None \<and> subjectivity (h5 r) \<noteq> None" if r: "r \<in> set sorted_articles" for r
  proof -
    from analyze_sentiment_Inr(5) [OF an r]
    have a: "sentiment (h4 r) \<noteq> None" "subjectivity (h4 r) \<noteq> None" by blast+
    have "sentiment (h5 r) = sentiment (h4 r)"
      by (rule adjust_subjectivity_Inr(5) [OF ad])
    with a(1) have s: "sentiment (h5 r) \<noteq> None" by simp
    from a(2) adjust_subjectivity_Inr(6) [OF ad, of r]
    have v: "subjectivity (h5 r) \<noteq> None"
      by (cases "subjectivity (h5 r)") simp_all
    have "link (h5 r) = link (heap s3 r)" "title (h5 r) = title (heap s3 r)"
      "published (h5 r) = published (heap s3 r)"
      by (simp_all add: adjust_subjectivity_Inr(1,2,4) [OF ad] analyze_sentiment_Inr(1,2,4) [OF an])
    with skeys [OF r] s v show ?thesis by simp
  qed
  have "set (?fv @ ?fh @ ?fr) \<subseteq> set sorted_articles"
    using set_filter_articles_by_keywords [of h5 sorted_articles] by auto
  with full have "\<forall>r\<in>set (?fv @ ?fh @ ?fr). sentiment (h5 r) \<noteq> None \<and> link (h5 r) \<noteq> None \<and>
      title (h5 r) \<noteq> None \<and> published (h5 r) \<noteq> None \<and> subjectivity (h5 r) \<noteq> None"
    by blast
  from create_dashboard_returns [OF this] obtain dashboard where
    d: "create_dashboard h5 (?fv @ ?fh @ ?fr) = Inr dashboard"
    by blast
  show "\<exists>out. main sentiment_model get_vish get_high_speed get_rzd s0 = Inr out"
    unfolding main_def by (simp add: f1 f2 f3 u so an ad d and_then_def Let_def)
qed

text \<open>The example run completes and writes \<open>ex_files\<close>.\<close>

lemma ex_main: "main ex_model ex_vish ex_high_speed ex_rzd ex_store = Inr ex_files"
  by (simp add: main_def and_then_def fetch_vish_news_def fetch_high_speed_railways_def
      fetch_russian_railways_def fetch_news_def ex_vish_def ex_high_speed_def ex_rzd_def
      ex_store_def get_or_def getitem_def Let_def unique_articles_def dict_values_def
      filter_and_sort_articles_def no_keys_def ex_model_def NEUTRAL_def POSITIVE_def
      NEGATIVE_def filter_articles_by_keywords_def keywords_vish_def keywords_rzd_def
      keywords_high_speed_def save_to_json_def render_entry_def sentiment_color_def
      ex_files_def ex_article_a_def ex_article_b_def ex_item_a_def ex_item_b_def)

lemma ex_matches:
  "matches_keywords keywords_high_speed ex_article_a"
  "matches_keywords keywords_rzd ex_article_a"
  "\<not> matches_keywords keywords_vish ex_article_a"
  by (simp_all add: matches_keywords_def str_contains_sublist [symmetric] get_or_def
      keywords_high_speed_def keywords_rzd_def keywords_vish_def ex_article_a_def)

text \<open>
  C6. When \<open>main\<close> completes, the object written to \<open>all_articles.json\<close> has exactly
  the six keys \<open>unique_articles\<close>, \<open>analyzed_articles\<close>, \<open>filtered_vish\<close>,
  \<open>filtered_high_speed\<close>, \<open>filtered_rzd\<close> and \<open>final_articles\<close>, in that order, and the
  list under \<open>final_articles\<close> is the list under \<open>filtered_vish\<close>, followed by the list
  under \<open>filtered_high_speed\<close>, followed by the list under \<open>filtered_rzd\<close>.
\<close>

theorem main_report_six_keys:
  assumes "main sentiment_model get_vish get_high_speed get_rzd s0 = Inr out"
  shows "\<exists>unique analyzed vish high_speed rzd final.
           all_articles_json out =
             [(''unique_articles'', unique), (''analyzed_articles'', analyzed),
              (''filtered_vish'', vish), (''filtered_high_speed'', high_speed),
              (''filtered_rzd'', rzd), (''final_articles'', final)] \<and>
           final = vish @ high_speed @ rzd"
proof -
  from main_Inr [OF assms] obtain h5 unique sorted_articles fv fh fr where
    "all_articles_json out = save_to_json h5
        [(''unique_articles'', unique), (''analyzed_articles'', sorted_articles),
         (''filtered_vish'', fv), (''filtered_high_speed'', fh), (''filtered_rzd'', fr),
         (''final_articles'', fv @ fh @ fr)]"
    by blast
  then show ?thesis
    by (simp add: save_to_json_def)
qed

theorem main_report_six_keys_witness:
  "main ex_model ex_vish ex_high_speed ex_rzd ex_store = Inr ex_files \<and>
   map fst (all_articles_json ex_files) =
     [''unique_articles'', ''analyzed_articles'', ''filtered_vish'', ''filtered_high_speed'',
      ''filtered_rzd'', ''final_articles''] \<and>
   map_of (all_articles_json ex_files) ''final_articles'' =
     Some ([ex_article_b] @ [ex_article_a] @ [ex_article_a])"
  using main_report_six_keys [OF ex_main] ex_main by (simp add: ex_files_def)

text \<open>
  C9. \<open>analyze_sentiment\<close> and \<open>adjust_subjectivity\<close> write into the dict objects that
  all six lists of the report refer to. So when \<open>main\<close> completes, every article written
  under every key of \<open>all_articles.json\<close>, \<open>unique_articles\<close> included, has the entries
  \<open>sentiment\<close> and \<open>subjectivity\<close>; and the lists under \<open>unique_articles\<close> and
  \<open>analyzed_articles\<close> hold the same articles with the same multiplicities, in possibly
  different orders.
\<close>

theorem main_report_articles_scored:
  assumes "main sentiment_model get_vish get_high_speed get_rzd s0 = Inr out"
  shows "(\<forall>(key, articles)\<in>set (all_articles_json out).
            \<forall>a\<in>set articles. sentiment a \<noteq> None \<and> subjectivity a \<noteq> None) \<and>
         (\<exists>unique analyzed.
            map_of (all_articles_json out) ''unique_articles'' = Some unique \<and>
            map_of (all_articles_json out) ''analyzed_articles'' = Some analyzed \<and>
            mset unique = mset analyzed)"
proof -
  from main_Inr [OF assms] obtain s3 :: store and h4 h5 unique sorted_articles fv fh fr where
    sort: "filter_and_sort_articles (heap s3) unique = Inr sorted_articles" and
    analyze: "analyze_sentiment sentiment_model (heap s3) sorted_articles = Inr h4" and
    adjust: "adjust_subjectivity h4 sorted_articles = Inr h5" and
    fv: "fv = filter_articles_by_keywords h5 sorted_articles keywords_vish" and
    fh: "fh = filter_articles_by_keywords h5 sorted_articles keywords_high_speed" and
    fr: "fr = filter_articles_by_keywords h5 sorted_articles keywords_rzd" and
    json: "all_articles_json out = save_to_json h5
        [(''unique_articles'', unique), (''analyzed_articles'', sorted_articles),
         (''filtered_vish'', fv), (''filtered_high_speed'', fh), (''filtered_rzd'', fr),
         (''final_articles'', fv @ fh @ fr)]"
    by blast
  have perm: "mset sorted_articles = mset unique"
    by (rule filter_and_sort_articles_Inr_mset [OF sort])
  then have same_set: "set unique = set sorted_articles"
    by (metis set_mset_mset)
  have scored: "sentiment (h5 r) \<noteq> None \<and> subjectivity (h5 r) \<noteq> None"
    if "r \<in> set sorted_articles" for r
  proof -
    from analyze_sentiment_Inr(5) [OF analyze that]
    have a: "sentiment (h4 r) \<noteq> None" "subjectivity (h4 r) \<noteq> None"
      by blast+
    have "sentiment (h5 r) = sentiment (h4 r)"
      by (rule adjust_subjectivity_Inr(5) [OF adjust])
    with a(1) have "sentiment (h5 r) \<noteq> None"
      by simp
    moreover from a(2) adjust_subjectivity_Inr(6) [OF adjust, of r]
    have "subjectivity (h5 r) \<noteq> None"
      by (cases "subjectivity (h5 r)") simp_all
    ultimately show ?thesis by blast
  qed
  have sub: "set fv \<subseteq> set sorted_articles" "set fh \<subseteq> set sorted_articles"
    "set fr \<subseteq> set sorted_articles"
    unfolding fv fh fr by (rule set_filter_articles_by_keywords)+
  have coll: "\<forall>r\<in>set rs. sentiment (h5 r) \<noteq> None \<and> subjectivity (h5 r) \<noteq> None"
    if "set rs \<subseteq> set sorted_articles" for rs
    using scored that by blast
  have all: "\<forall>(key, articles)\<in>set (all_articles_json out).
            \<forall>a\<in>set articles. sentiment a \<noteq> None \<and> subjectivity a \<noteq> None"
    unfolding json
    using coll [OF sub(1)] coll [OF sub(2)] coll [OF sub(3)] coll [of unique]
      coll [of sorted_articles] same_set
    by (simp add: save_to_json_def ball_Un del: not_None_eq)
  have "mset (map h5 unique) = mset (map h5 sorted_articles)"
    using perm by simp
  then show ?thesis
    using all unfolding json by (simp add: save_to_json_def)
qed

theorem main_report_articles_scored_witness:
  "main ex_model ex_vish ex_high_speed ex_rzd ex_store = Inr ex_files \<and>
   map_of (all_articles_json ex_files) ''unique_articles'' = Some [ex_article_a, ex_article_b] \<and>
   map_of (all_articles_json ex_files) ''analyzed_articles'' = Some [ex_article_b, ex_article_a] \<and>
   sentiment ex_article_a = Some POSITIVE \<and> subjectivity ex_article_a = Some (9 / 10) \<and>
   sentiment ex_article_b = Some NEUTRAL \<and> subjectivity ex_article_b = Some (1 / 10)"
  using main_report_articles_scored [OF ex_main] ex_main
  by (simp add: ex_files_def ex_article_a_def ex_article_b_def)

text \<open>
  C10. When \<open>main\<close> completes, the articles under \<open>analyzed_articles\<close> have pairwise
  different links, and each of them occurs in each filtered subset exactly once if its title
  or description contains a keyword of that subset's set, and not at all otherwise. Its
  number of occurrences in \<open>final_articles\<close> is therefore the number of keyword sets it
  matches, two or three for an article that matches more than one set, and the dashboard has
  that many list items with its link.
\<close>

theorem main_final_articles_multiplicity:
  assumes "main sentiment_model get_vish get_high_speed get_rzd s0 = Inr out"
  shows "\<exists>analyzed vish high_speed rzd final.
           map_of (all_articles_json out) ''analyzed_articles'' = Some analyzed \<and>
           map_of (all_articles_json out) ''filtered_vish'' = Some vish \<and>
           map_of (all_articles_json out) ''filtered_high_speed'' = Some high_speed \<and>
           map_of (all_articles_json out) ''filtered_rzd'' = Some rzd \<and>
           map_of (all_articles_json out) ''final_articles'' = Some final \<and>
           distinct (map link analyzed) \<and>
           (\<forall>a\<in>set analyzed.
              count_list vish a = of_bool (matches_keywords keywords_vish a) \<and>
              count_list high_speed a = of_bool (matches_keywords keywords_high_speed a) \<and>
              count_list rzd a = of_bool (matches_keywords keywords_rzd a) \<and>
              count_list final a =
                of_bool (matches_keywords keywords_vish a) +
                of_bool (matches_keywords keywords_high_speed a) +
                of_bool (matches_keywords keywords_rzd a) \<and>
              length (filter (\<lambda>item. Some (href item) = link a) (news_dashboard_html out)) =
                count_list final a)"
proof -
  from main_Inr [OF assms] obtain s3 :: store and all_articles h4 h5 unique sorted_articles
      fv fh fr where
    uniq: "unique_articles (heap s3) all_articles = Inr unique" and
    sort: "filter_and_sort_articles (heap s3) unique = Inr sorted_articles" and
    analyze: "analyze_sentiment sentiment_model (heap s3) sorted_articles = Inr h4" and
    adjust: "adjust_subjectivity h4 sorted_articles = Inr h5" and
    fv: "fv = filter_articles_by_keywords h5 sorted_articles keywords_vish" and
    fh: "fh = filter_articles_by_keywords h5 sorted_articles keywords_high_speed" and
    fr: "fr = filter_articles_by_keywords h5 sorted_articles keywords_rzd" and
    dash: "create_dashboard h5 (fv @ fh @ fr) = Inr (news_dashboard_html out)" and
    json: "all_articles_json out = save_to_json h5
        [(''unique_articles'', unique), (''analyzed_articles'', sorted_articles),
         (''filtered_vish'', fv), (''filtered_high_speed'', fh), (''filtered_rzd'', fr),
         (''final_articles'', fv @ fh @ fr)]"
    by blast
  let ?an = "map h5 sorted_articles"
  let ?fin = "map h5 (fv @ fh @ fr)"
  have link5: "link (h5 r) = link (heap s3 r)" for r
    by (simp add: adjust_subjectivity_Inr(1) [OF adjust] analyze_sentiment_Inr(1) [OF analyze])
  have "mset (map (\<lambda>r. link (heap s3 r)) sorted_articles) =
        mset (map (\<lambda>r. link (heap s3 r)) unique)"
    using filter_and_sort_articles_Inr_mset [OF sort] by simp
  from mset_eq_imp_distinct_iff [OF this] unique_articles_Inr_distinct [OF uniq]
  have "distinct (map (\<lambda>r. link (heap s3 r)) sorted_articles)"
    by simp
  then have dl: "distinct (map link ?an)"
    by (simp add: comp_def link5)
  then have da: "distinct ?an"
    unfolding distinct_map [of link] by blast
  have inj: "a = b" if "a \<in> set ?an" "b \<in> set ?an" "link a = link b" for a b
    using dl that unfolding distinct_map [of link] inj_on_def by blast
  have mv: "map h5 fv = filter (matches_keywords keywords_vish) ?an"
    and mh: "map h5 fh = filter (matches_keywords keywords_high_speed) ?an"
    and mr: "map h5 fr = filter (matches_keywords keywords_rzd) ?an"
    unfolding fv fh fr by (rule map_filter_articles_by_keywords)+
  have fin: "?fin = map h5 fv @ map h5 fh @ map h5 fr"
    by simp
  have sub: "set ?fin \<subseteq> set ?an"
    unfolding fin mv mh mr by auto
  have hrefs: "map (\<lambda>item. Some (href item)) (news_dashboard_html out) = map link ?fin"
    using create_dashboard_hrefs [OF dash] by (simp add: comp_def)
  have items: "length (filter (\<lambda>item. Some (href item) = link a) (news_dashboard_html out)) =
      count_list ?fin a" if a: "a \<in> set ?an" for a
  proof -
    have "length (filter (\<lambda>item. Some (href item) = link a) (news_dashboard_html out)) =
          length (filter (\<lambda>l. l = link a) (map (\<lambda>item. Some (href item)) (news_dashboard_html out)))"
      by (simp add: filter_map comp_def)
    also have "\<dots> = length (filter (\<lambda>b. link b = link a) ?fin)"
      unfolding hrefs by (simp add: filter_map comp_def del: map_append)
    also have "filter (\<lambda>b. link b = link a) ?fin = filter (\<lambda>b. a = b) ?fin"
      using sub a by (intro filter_cong refl) (auto dest: inj simp del: set_map map_append)
    also have "length \<dots> = count_list ?fin a"
      by (simp only: count_list_eq_length_filter)
    finally show ?thesis .
  qed
  have counts: "count_list (filter P ?an) a = of_bool (P a)" if "a \<in> set ?an" for a P
    by (rule count_list_filter_distinct [OF da that])
  show ?thesis
    unfolding json
    using dl items
    by (simp add: save_to_json_def mv mh mr counts del: set_map map_map)
qed

theorem main_final_articles_multiplicity_witness:
  "main ex_model ex_vish ex_high_speed ex_rzd ex_store = Inr ex_files \<and>
   matches_keywords keywords_high_speed ex_article_a \<and>
   matches_keywords keywords_rzd ex_article_a \<and>
   map_of (all_articles_json ex_files) ''final_articles'' =
     Some [ex_article_b, ex_article_a, ex_article_a] \<and>
   count_list [ex_article_b, ex_article_a, ex_article_a] ex_article_a = 2 \<and>
   length (filter (\<lambda>item. Some (href item) = link ex_article_a)
     (news_dashboard_html ex_files)) = 2"
proof -
  have ne: "ex_article_b \<noteq> ex_article_a"
    by (simp add: ex_article_a_def ex_article_b_def)
  have "length (filter (\<lambda>item. Some (href item) = link ex_article_a)
     (news_dashboard_html ex_files)) = 2"
    by (simp add: ex_files_def ex_item_a_def ex_item_b_def ex_article_a_def)
  then show ?thesis
    using main_final_articles_multiplicity [OF ex_main] ex_main ex_matches ne by (simp add: ex_files_def)
qed

end
